theory Spec2Isabelle
  imports Main "HOL-Library.Sublist"
begin

section \<open>Strings\<close>

text \<open>
  A JavaScript string is modelled as a \<^typ>\<open>string\<close> whose characters are the code units
  U+0000 to U+00FF (Basic Latin and Latin-1 Supplement). On these,
  \<^verbatim>\<open>String.prototype.toLocaleLowerCase\<close> is, in every host locale without a tailored
  lower-casing (all but Turkish, Azeri and Lithuanian), the Unicode simple lower-case
  mapping: the capital letters U+0041..U+005A and U+00C0..U+00DE, the multiplication
  sign U+00D7 apart, move up by 32, and every other code unit stays.
\<close>

definition isUpperCaseChar :: "char \<Rightarrow> bool" where
  "isUpperCaseChar c =
     (let n = (of_char c :: nat) in
      (65 \<le> n \<and> n \<le> 90) \<or> (192 \<le> n \<and> n \<le> 222 \<and> n \<noteq> 215))"

definition toLowerChar :: "char \<Rightarrow> char" where
  "toLowerChar c = (if isUpperCaseChar c then char_of ((of_char c :: nat) + 32) else c)"

definition toLocaleLowerCase :: "string \<Rightarrow> string" where
  "toLocaleLowerCase s = map toLowerChar s"

section \<open>Data model\<close>

text \<open>
  A structured value as the documentation extractor delivers it and as
  \<^verbatim>\<open>JSON.stringify\<close> walks it. An object is the list of its own enumerable properties
  in enumeration order; a property whose value is \<^verbatim>\<open>undefined\<close> is left out by the
  serialisation and is not in the list. A number is an integral one (a line, a column, a
  byte index), of a magnitude below \<open>10\<^sup>2\<^sup>1\<close>, where \<^verbatim>\<open>Number::toString\<close> writes all
  its digits.
\<close>

datatype json =
    JNull
  | JBool bool
  | JNumber int
  | JString string
  | JArray "json list"
  | JObject "(string \<times> json) list"

text \<open>
  \<^verbatim>\<open>DocNodeImport\<close> comes from the package \<^verbatim>\<open>@deno/doc\<close>. The renderer reads its
  \<^verbatim>\<open>name\<close> and dumps the whole object, so the record keeps the name and the object's
  other own properties (the kind discriminant, the location, the import definition,
  the documentation comment, ...): those enumerated before the name and those after it.
\<close>

record DocNodeImport =
  propsBefore :: "(string \<times> json) list"
  name :: string
  propsAfter :: "(string \<times> json) list"

text \<open>
  The reference context. The renderer reads \<^verbatim>\<open>root\<close> and \<^verbatim>\<open>packageName\<close>; whatever
  else a context carries is the extension part of the record scheme.
\<close>

record ReferenceContext =
  root :: string
  packageName :: string

text \<open>The \<^verbatim>\<open>navigation\<close> property handed to the page layout.\<close>

record Navigation =
  category :: string
  currentItemName :: string

text \<open>
  A JSX element: a text child, an intrinsic element such as \<^verbatim>\<open><pre>\<close> with its
  children, and the two component elements of this file, each with the properties it is
  created with. Creating a component element does not call the component.
\<close>

datatype 'a element =
    TextNode string
  | IntrinsicElement string "'a element list"
  | ReferencePageElement "'a ReferenceContext_scheme" Navigation "'a element list"
  | ImportElement DocNodeImport "'a ReferenceContext_scheme"

record 'a LumeDocument =
  title :: string
  url :: string
  content :: "'a element"

section \<open>The generator \<^verbatim>\<open>getPages\<close>\<close>

text \<open>
  \<^verbatim>\<open>getPages\<close> is a generator function. Calling it runs none of its body: it returns a
  generator object that holds the two arguments and is suspended at the start. Each
  \<^verbatim>\<open>next()\<close> resumes the body: the first reaches the only \<^verbatim>\<open>yield\<close>, the second runs
  off the end of the body, and every later one finds the generator completed.
\<close>

datatype GeneratorState = SuspendedStart | SuspendedYield | Completed

record 'a Generator =
  genItem :: DocNodeImport
  genContext :: "'a ReferenceContext_scheme"
  genState :: GeneratorState

datatype 'r IteratorResult = Yielded 'r | Finished

definition getPages :: "DocNodeImport \<Rightarrow> 'a ReferenceContext_scheme \<Rightarrow> 'a Generator" where
  "getPages item context =
     \<lparr>genItem = item, genContext = context, genState = SuspendedStart\<rparr>"

text \<open>The object of the \<^verbatim>\<open>yield\<close>.\<close>

definition getPages_yield ::
  "DocNodeImport \<Rightarrow> 'a ReferenceContext_scheme \<Rightarrow> 'a LumeDocument" where
  "getPages_yield item context =
     \<lparr>title = name item,
      url = root context @ ''/'' @ toLocaleLowerCase (packageName context) @ ''/'' @
            toLocaleLowerCase (name item) @ ''.import'',
      content = ImportElement item context\<rparr>"

definition generatorNext ::
  "'a Generator \<Rightarrow> 'a LumeDocument IteratorResult \<times> 'a Generator" where
  "generatorNext g =
     (case genState g of
        SuspendedStart \<Rightarrow>
          (Yielded (getPages_yield (genItem g) (genContext g)), g\<lparr>genState := SuspendedYield\<rparr>)
      | SuspendedYield \<Rightarrow> (Finished, g\<lparr>genState := Completed\<rparr>)
      | Completed \<Rightarrow> (Finished, g))"

text \<open>
  Iterating a generator to its end, as \<^verbatim>\<open>for (const page of g)\<close> and
  \<^verbatim>\<open>Array.from(g)\<close> do: the pages in order, and the generator as the loop leaves it.
  A generator is its own iterator, so a second loop over the same object goes on from
  that state.
\<close>

fun stepsLeft :: "GeneratorState \<Rightarrow> nat" where
  "stepsLeft SuspendedStart = 2"
| "stepsLeft SuspendedYield = 1"
| "stepsLeft Completed = 0"

function iterate :: "'a Generator \<Rightarrow> 'a LumeDocument list \<times> 'a Generator" where
  "iterate g =
     (case generatorNext g of
        (Finished, g') \<Rightarrow> ([], g')
      | (Yielded page, g') \<Rightarrow> (case iterate g' of (pages, g'') \<Rightarrow> (page # pages, g'')))"
  by pat_completeness auto
termination
  by (relation "measure (\<lambda>g. stepsLeft (genState g))")
     (auto simp: generatorNext_def split: GeneratorState.splits)

section \<open>\<^verbatim>\<open>JSON.stringify(data, null, 2)\<close>\<close>

text \<open>
  The serialisation of ECMA-262 (\<^verbatim>\<open>SerializeJSONProperty\<close> and the operations it calls),
  with no replacer and with the gap of two spaces. The first argument of
  \<open>SerializeJSONProperty\<close> is the current indentation.
\<close>

definition hexDigit :: "nat \<Rightarrow> char" where
  "hexDigit n = (if n < 10 then char_of (48 + n) else char_of (87 + n))"

text \<open>
  \<^verbatim>\<open>QuoteJSONString\<close>: the quotation mark, the backslash and the control characters
  below U+0020 are escaped (the short escapes for U+0008, U+0009, U+000A, U+000C and
  U+000D, four lower-case hexadecimal digits for the others); every other code unit
  stands for itself.
\<close>

definition quoteChar :: "char \<Rightarrow> string" where
  "quoteChar c =
     (let n = (of_char c :: nat) in
      if n = 8 then [CHR 0x5C, CHR ''b'']
      else if n = 9 then [CHR 0x5C, CHR ''t'']
      else if n = 10 then [CHR 0x5C, CHR ''n'']
      else if n = 12 then [CHR 0x5C, CHR ''f'']
      else if n = 13 then [CHR 0x5C, CHR ''r'']
      else if n = 34 then [CHR 0x5C, CHR 0x22]
      else if n = 92 then [CHR 0x5C, CHR 0x5C]
      else if n < 32 then [CHR 0x5C, CHR ''u'', CHR ''0'', CHR ''0'', hexDigit (n div 16), hexDigit (n mod 16)]
      else [c])"

definition QuoteJSONString :: "string \<Rightarrow> string" where
  "QuoteJSONString s = [CHR 0x22] @ concat (map quoteChar s) @ [CHR 0x22]"

text \<open>\<^verbatim>\<open>Number::toString\<close> on an integral number: its decimal digits, after a minus sign if negative.\<close>

fun digits :: "nat \<Rightarrow> string" where
  "digits n = (if n < 10 then [char_of (48 + n)] else digits (n div 10) @ [char_of (48 + n mod 10)])"

declare digits.simps [simp del]

definition numberToString :: "int \<Rightarrow> string" where
  "numberToString i = (if i < 0 then CHR ''-'' # digits (nat (- i)) else digits (nat i))"

fun join :: "string \<Rightarrow> string list \<Rightarrow> string" where
  "join sep [] = []"
| "join sep [x] = x"
| "join sep (x # y # ys) = x @ sep @ join sep (y # ys)"

definition gap :: string where
  "gap = ''  ''"

definition lineFeed :: string where
  "lineFeed = [CHR 0x0A]"

fun SerializeJSONProperty :: "string \<Rightarrow> json \<Rightarrow> string" where
  "SerializeJSONProperty indent JNull = ''null''"
| "SerializeJSONProperty indent (JBool b) = (if b then ''true'' else ''false'')"
| "SerializeJSONProperty indent (JNumber i) = numberToString i"
| "SerializeJSONProperty indent (JString s) = QuoteJSONString s"
| "SerializeJSONProperty indent (JArray xs) =
     (let stepback = indent; indent = indent @ gap;
          partial = map (\<lambda>x. SerializeJSONProperty indent x) xs
      in if partial = [] then ''[]''
         else ''['' @ lineFeed @ indent @ join ('','' @ lineFeed @ indent) partial @
              lineFeed @ stepback @ '']'')"
| "SerializeJSONProperty indent (JObject ps) =
     (let stepback = indent; indent = indent @ gap;
          partial = map (\<lambda>p. QuoteJSONString (fst p) @ '': '' @ SerializeJSONProperty indent (snd p)) ps
      in if partial = [] then ''{}''
         else ''{'' @ lineFeed @ indent @ join ('','' @ lineFeed @ indent) partial @
              lineFeed @ stepback @ ''}'')"

definition JSON_stringify :: "json \<Rightarrow> string" where
  "JSON_stringify v = SerializeJSONProperty [] v"

section \<open>The component \<^verbatim>\<open>Import\<close>\<close>

text \<open>The object \<^verbatim>\<open>data\<close> as \<^verbatim>\<open>JSON.stringify\<close> sees it: all its own properties, in order.\<close>

definition properties :: "DocNodeImport \<Rightarrow> (string \<times> json) list" where
  "properties d = propsBefore d @ [(''name'', JString (name d))] @ propsAfter d"

text \<open>
  The children of the layout element are the text up to the name, the name, and the
  \<^verbatim>\<open><pre>\<close> element holding the dump; JSX drops the white space between them, which
  holds line breaks.
\<close>

definition Import :: "DocNodeImport \<Rightarrow> 'a ReferenceContext_scheme \<Rightarrow> 'a element" where
  "Import data context =
     ReferencePageElement context
       \<lparr>category = packageName context, currentItemName = name data\<rparr>
       [TextNode ''I am a Import, my name is '',
        TextNode (name data),
        IntrinsicElement ''pre'' [TextNode (JSON_stringify (JObject (properties data)))]]"

text \<open>
  Rendering a component element calls its component with the element's properties.
  The layout \<^verbatim>\<open>ReferencePage\<close> is another module's; its element is left as it is.
\<close>

fun renderComponent :: "'a element \<Rightarrow> 'a element" where
  "renderComponent (ImportElement d c) = Import d c"
| "renderComponent e = e"

section \<open>The host's locale\<close>







section \<open>Properties of strings used by the claims\<close>

text \<open>A string is lower-case when lower-casing leaves it as it is.\<close>

definition isLowerCase :: "string \<Rightarrow> bool" where
  "isLowerCase s = (toLocaleLowerCase s = s)"

text \<open>
  The white space and line terminators of ECMAScript among the code units of the model:
  tab, line feed, vertical tab, form feed, carriage return, space, no-break space.
\<close>

definition isWhiteSpace :: "char \<Rightarrow> bool" where
  "isWhiteSpace c =
     (let n = (of_char c :: nat) in
      n = 9 \<or> n = 10 \<or> n = 11 \<or> n = 12 \<or> n = 13 \<or> n = 32 \<or> n = 160)"

section \<open>Slug derivation for every kind\<close>

text \<open>
  Modelled from the spec: the closed set of symbol kinds. Only the renderer of imports is
  among the sources; the kinds are those the specification lists.
\<close>

datatype Kind =
    KindImport
  | KindFunction
  | KindClass
  | KindInterface
  | KindVariable
  | KindTypeAlias
  | KindEnum
  | KindNamespace

text \<open>
  Modelled from the spec: the suffix each kind reserves for itself. The import renderer's
  is \<^verbatim>\<open>import\<close>, its kind discriminant; the other kinds' renderers are not among the
  sources, and each is given its own discriminant likewise.
\<close>

fun kindTag :: "Kind \<Rightarrow> string" where
  "kindTag KindImport = ''import''"
| "kindTag KindFunction = ''function''"
| "kindTag KindClass = ''class''"
| "kindTag KindInterface = ''interface''"
| "kindTag KindVariable = ''variable''"
| "kindTag KindTypeAlias = ''typeAlias''"
| "kindTag KindEnum = ''enum''"
| "kindTag KindNamespace = ''namespace''"

text \<open>
  Modelled from the spec: the slug derivation for a symbol of any kind, the root, the
  lower-cased package name and the lower-cased name, then a dot and the kind's suffix.
\<close>

definition deriveUrl :: "string \<Rightarrow> string \<Rightarrow> string \<Rightarrow> Kind \<Rightarrow> string" where
  "deriveUrl r p n k =
     r @ ''/'' @ toLocaleLowerCase p @ ''/'' @ toLocaleLowerCase n @ ''.'' @ kindTag k"

section \<open>Reading a dump\<close>

text \<open>
  What the proof that the dump is lossless reads off a dump: the decimal digits and their
  value, the characters that may follow a value inside a dump, the character that a
  quoted string holds at its front, and the kind of value a dump begins with.
\<close>

definition isDigit :: "char \<Rightarrow> bool" where
  "isDigit c = (48 \<le> (of_char c :: nat) \<and> (of_char c :: nat) \<le> 57)"

definition delimited :: "string \<Rightarrow> bool" where
  "delimited r = (case r of [] \<Rightarrow> True | c # _ \<Rightarrow> c = CHR '','' \<or> c = CHR 0x0A)"

fun digitsValue :: "string \<Rightarrow> nat" where
  "digitsValue [] = 0"
| "digitsValue (c # cs) = (of_char c - 48) * 10 ^ length cs + digitsValue cs"

definition hexValue :: "char \<Rightarrow> nat" where
  "hexValue h = (let n = (of_char h :: nat) in if n < 58 then n - 48 else n - 87)"

fun unquoteChar :: "string \<Rightarrow> (char \<times> string) option" where
  "unquoteChar [] = None"
| "unquoteChar (c # rest) =
     (if c = CHR 0x5C then
        (case rest of
           [] \<Rightarrow> None
         | e # rest' \<Rightarrow>
             if e = CHR ''b'' then Some (char_of (8::nat), rest')
             else if e = CHR ''t'' then Some (char_of (9::nat), rest')
             else if e = CHR ''n'' then Some (char_of (10::nat), rest')
             else if e = CHR ''f'' then Some (char_of (12::nat), rest')
             else if e = CHR ''r'' then Some (char_of (13::nat), rest')
             else if e = CHR ''u'' then
               (case rest' of
                  z1 # z2 # h1 # h2 # rest'' \<Rightarrow> Some (char_of (16 * hexValue h1 + hexValue h2), rest'')
                | _ \<Rightarrow> None)
             else Some (e, rest'))
      else Some (c, rest))"

definition headClass :: "char \<Rightarrow> nat" where
  "headClass c =
     (if c = CHR ''n'' then 0
      else if c = CHR ''t'' \<or> c = CHR ''f'' then 1
      else if c = CHR ''-'' \<or> isDigit c then 2
      else if c = CHR 0x22 then 3
      else if c = CHR ''['' then 4
      else if c = CHR ''{'' then 5
      else 6)"

fun valueClass :: "json \<Rightarrow> nat" where
  "valueClass JNull = 0"
| "valueClass (JBool b) = 1"
| "valueClass (JNumber i) = 2"
| "valueClass (JString s) = 3"
| "valueClass (JArray xs) = 4"
| "valueClass (JObject ps) = 5"

text \<open>An object holds each property key once.\<close>

definition distinctKeys :: "DocNodeImport \<Rightarrow> bool" where
  "distinctKeys d = distinct (map fst (properties d))"

section \<open>Lemmas\<close>

subsection \<open>Lower-casing\<close>

lemma of_char_toLowerChar:
  "(of_char (toLowerChar c) :: nat) = (if isUpperCaseChar c then of_char c + 32 else of_char c)"
  by (simp add: toLowerChar_def isUpperCaseChar_def Let_def)

lemma toLowerChar_not_upper: "\<not> isUpperCaseChar (toLowerChar c)"
proof -
  have "\<not> (let n = (of_char (toLowerChar c) :: nat) in
            (65 \<le> n \<and> n \<le> 90) \<or> (192 \<le> n \<and> n \<le> 222 \<and> n \<noteq> 215))"
    unfolding of_char_toLowerChar by (auto simp: isUpperCaseChar_def Let_def)
  then show ?thesis
    unfolding isUpperCaseChar_def .
qed

lemma toLowerChar_fixed_iff: "toLowerChar c = c \<longleftrightarrow> \<not> isUpperCaseChar c"
proof
  assume "toLowerChar c = c"
  then show "\<not> isUpperCaseChar c"
    using toLowerChar_not_upper [of c] by simp
next
  assume "\<not> isUpperCaseChar c"
  then show "toLowerChar c = c"
    by (simp add: toLowerChar_def)
qed

lemma toLowerChar_idem: "toLowerChar (toLowerChar c) = toLowerChar c"
  by (simp add: toLowerChar_fixed_iff toLowerChar_not_upper)

lemma toLocaleLowerCase_idem: "toLocaleLowerCase (toLocaleLowerCase s) = toLocaleLowerCase s"
  by (simp add: toLocaleLowerCase_def toLowerChar_idem)

lemma toLocaleLowerCase_fixed_iff:
  "toLocaleLowerCase s = s \<longleftrightarrow> \<not> list_ex isUpperCaseChar s"
  by (induction s) (simp_all add: toLocaleLowerCase_def toLowerChar_fixed_iff)

lemma isWhiteSpace_toLowerChar: "isWhiteSpace (toLowerChar c) = isWhiteSpace c"
proof -
  have "(let n = (of_char (toLowerChar c) :: nat) in
           n = 9 \<or> n = 10 \<or> n = 11 \<or> n = 12 \<or> n = 13 \<or> n = 32 \<or> n = 160) = isWhiteSpace c"
    unfolding of_char_toLowerChar by (auto simp: isUpperCaseChar_def isWhiteSpace_def Let_def)
  then show ?thesis
    unfolding isWhiteSpace_def [of "toLowerChar c"] .
qed

lemma list_ex_isWhiteSpace_toLocaleLowerCase:
  "list_ex isWhiteSpace (toLocaleLowerCase s) = list_ex isWhiteSpace s"
  by (induction s) (simp_all add: toLocaleLowerCase_def isWhiteSpace_toLowerChar)

subsection \<open>Iteration\<close>

declare iterate.simps [simp del]

lemma iterate_Completed: "genState g = Completed \<Longrightarrow> iterate g = ([], g)"
  by (subst iterate.simps) (simp add: generatorNext_def)

lemma iterate_SuspendedYield:
  "genState g = SuspendedYield \<Longrightarrow> iterate g = ([], g\<lparr>genState := Completed\<rparr>)"
  by (subst iterate.simps) (simp add: generatorNext_def)

lemma iterate_SuspendedStart:
  "genState g = SuspendedStart \<Longrightarrow>
   iterate g = ([getPages_yield (genItem g) (genContext g)], g\<lparr>genState := Completed\<rparr>)"
  by (subst iterate.simps) (simp add: generatorNext_def iterate_SuspendedYield)

lemma iterate_getPages:
  "iterate (getPages item context) =
     ([getPages_yield item context],
      \<lparr>genItem = item, genContext = context, genState = Completed\<rparr>)"
  by (simp add: iterate_SuspendedStart getPages_def)

lemma genContext_generatorNext: "genContext (snd (generatorNext g)) = genContext g"
  by (cases "genState g") (simp_all add: generatorNext_def)

lemma genItem_generatorNext: "genItem (snd (generatorNext g)) = genItem g"
  by (cases "genState g") (simp_all add: generatorNext_def)

lemma genContext_iterate: "genContext (snd (iterate g)) = genContext g"
  by (cases "genState g")
     (simp_all add: iterate_SuspendedStart iterate_SuspendedYield iterate_Completed)

lemma genItem_iterate: "genItem (snd (iterate g)) = genItem g"
  by (cases "genState g")
     (simp_all add: iterate_SuspendedStart iterate_SuspendedYield iterate_Completed)

lemma char_eq_char_of_iff: "c = char_of (n::nat) \<longleftrightarrow> of_char c = take_bit 8 n"
  using char_of_eq_iff [of n c] by auto

lemmas lower_eval =
  toLocaleLowerCase_def toLowerChar_def isUpperCaseChar_def char_of_eq_iff char_eq_char_of_iff

subsection \<open>Lower-case strings and kind suffixes\<close>

lemma kindTag_inj: "kindTag k = kindTag k' \<Longrightarrow> k = k'"
  by (cases k; cases k'; simp)

lemma isLowerCase_append: "isLowerCase (s @ t) \<longleftrightarrow> isLowerCase s \<and> isLowerCase t"
  by (simp add: isLowerCase_def toLocaleLowerCase_fixed_iff)

lemma isLowerCase_toLocaleLowerCase: "isLowerCase (toLocaleLowerCase s)"
  by (simp add: isLowerCase_def toLocaleLowerCase_idem)

lemma isLowerCase_Cons: "isLowerCase (c # s) \<longleftrightarrow> \<not> isUpperCaseChar c \<and> isLowerCase s"
  by (simp add: isLowerCase_def toLocaleLowerCase_fixed_iff)

subsection \<open>Numbers in a dump\<close>

lemma digitsValue_snoc: "digitsValue (cs @ [c]) = 10 * digitsValue cs + (of_char c - 48)"
  by (induction cs) (simp_all add: algebra_simps)

lemma digitsValue_digits: "digitsValue (digits n) = n"
proof (induction n rule: digits.induct)
  case (1 n)
  show ?case
  proof (cases "n < 10")
    case True
    then show ?thesis
      by (subst digits.simps) simp
  next
    case False
    have "digitsValue (digits n) = 10 * digitsValue (digits (n div 10)) + (n mod 10)"
      using False by (subst digits.simps) (simp add: digitsValue_snoc)
    also have "\<dots> = n"
      using False "1.IH" by simp
    finally show ?thesis .
  qed
qed

lemma digits_isDigit: "list_all isDigit (digits n)"
proof (induction n rule: digits.induct)
  case (1 n)
  show ?case
  proof (cases "n < 10")
    case True
    then show ?thesis
      by (subst digits.simps) (simp add: isDigit_def)
  next
    case False
    have "n mod 10 < 10" by simp
    then have "isDigit (char_of (48 + n mod 10))"
      by (simp add: isDigit_def)
    then show ?thesis
      using False "1.IH" by (subst digits.simps) simp
  qed
qed

lemma digits_not_Nil: "digits n \<noteq> []"
  by (subst digits.simps) simp

lemma delimited_takeWhile: "delimited r \<Longrightarrow> takeWhile isDigit r = []"
  by (cases r) (auto simp: delimited_def isDigit_def)

lemma takeWhile_digits: "delimited r \<Longrightarrow> takeWhile isDigit (digits n @ r) = digits n"
  using digits_isDigit [of n]
  by (simp add: takeWhile_append2 list_all_iff delimited_takeWhile)

lemma digits_inj_rest:
  assumes "digits n @ r = digits m @ r'" "delimited r" "delimited r'"
  shows "n = m \<and> r = r'"
proof -
  have "takeWhile isDigit (digits n @ r) = takeWhile isDigit (digits m @ r')"
    by (simp only: assms(1))
  then have same: "digits n = digits m"
    by (simp only: takeWhile_digits [OF assms(2)] takeWhile_digits [OF assms(3)])
  then have "digitsValue (digits n) = digitsValue (digits m)"
    by (simp only:)
  then have "n = m"
    by (simp only: digitsValue_digits)
  moreover have "r = r'"
    using assms(1) unfolding same by (simp only: same_append_eq)
  ultimately show ?thesis
    by (rule conjI)
qed

lemma hd_digits: "isDigit (hd (digits n))"
  using digits_isDigit [of n] digits_not_Nil [of n]
  by (cases "digits n") simp_all

lemma numberToString_inj_rest:
  assumes "numberToString i @ r = numberToString j @ r'" "delimited r" "delimited r'"
  shows "i = j \<and> r = r'"
proof -
  have minus: "\<not> isDigit CHR ''-''"
    by (simp add: isDigit_def)
  have clash: False if "CHR ''-'' # digits a @ s = digits b @ s'" for a b s s'
  proof -
    have "hd (digits b @ s') = CHR ''-''"
      using that [symmetric] by simp
    then have "hd (digits b) = CHR ''-''"
      using digits_not_Nil [of b] by simp
    then show False
      using hd_digits [of b] minus by simp
  qed
  show ?thesis
  proof (cases "i < 0"; cases "j < 0")
    assume "i < 0" "j < 0"
    then have "digits (nat (- i)) @ r = digits (nat (- j)) @ r'"
      using assms(1) by (simp add: numberToString_def)
    from digits_inj_rest [OF this assms(2,3)] \<open>i < 0\<close> \<open>j < 0\<close> show ?thesis
      by auto
  next
    assume "i < 0" "\<not> j < 0"
    then have "CHR ''-'' # digits (nat (- i)) @ r = digits (nat j) @ r'"
      using assms(1) by (simp add: numberToString_def)
    then show ?thesis
      using clash by blast
  next
    assume "\<not> i < 0" "j < 0"
    then have "CHR ''-'' # digits (nat (- j)) @ r' = digits (nat i) @ r"
      using assms(1) by (simp add: numberToString_def)
    then show ?thesis
      using clash by blast
  next
    assume "\<not> i < 0" "\<not> j < 0"
    then have "digits (nat i) @ r = digits (nat j) @ r'"
      using assms(1) by (simp add: numberToString_def)
    from digits_inj_rest [OF this assms(2,3)] \<open>\<not> i < 0\<close> \<open>\<not> j < 0\<close> show ?thesis
      by auto
  qed
qed

subsection \<open>Strings in a dump\<close>

lemma hexValue_hexDigit: "a < 16 \<Longrightarrow> hexValue (hexDigit a) = a"
  by (simp add: hexValue_def hexDigit_def Let_def)

lemma unquoteChar_quoteChar: "unquoteChar (quoteChar c @ x) = Some (c, x)"
proof -
  define n :: nat where "n = of_char c"
  have c: "c = char_of n" and small: "n < 256"
    by (simp_all add: n_def)
  have hex: "hexValue (hexDigit (n div 16)) = n div 16" "hexValue (hexDigit (n mod 16)) = n mod 16"
    if "n < 32"
    using that by (simp_all add: hexValue_hexDigit)
  have plain: "char_of n \<noteq> CHR 0x5C" if "n \<noteq> 92"
    using that small by (simp add: char_of_eq_iff take_bit_eq_mod)
  have q: "quoteChar c =
     (if n = 8 then [CHR 0x5C, CHR ''b'']
      else if n = 9 then [CHR 0x5C, CHR ''t'']
      else if n = 10 then [CHR 0x5C, CHR ''n'']
      else if n = 12 then [CHR 0x5C, CHR ''f'']
      else if n = 13 then [CHR 0x5C, CHR ''r'']
      else if n = 34 then [CHR 0x5C, CHR 0x22]
      else if n = 92 then [CHR 0x5C, CHR 0x5C]
      else if n < 32 then [CHR 0x5C, CHR ''u'', CHR ''0'', CHR ''0'', hexDigit (n div 16), hexDigit (n mod 16)]
      else [c])"
    by (simp add: quoteChar_def n_def Let_def)
  show ?thesis
    unfolding q using hex plain
    by (simp add: c char_eq_char_of_iff)
qed

lemma quoteChar_prefix_free:
  assumes "quoteChar c @ x = quoteChar c' @ y"
  shows "c = c' \<and> x = y"
proof -
  have "unquoteChar (quoteChar c @ x) = unquoteChar (quoteChar c' @ y)"
    by (simp only: assms)
  then show ?thesis
    by (simp only: unquoteChar_quoteChar option.inject prod.inject)
qed

lemma quoteChar_not_quote: "quoteChar c @ x \<noteq> CHR 0x22 # y"
proof
  assume "quoteChar c @ x = CHR 0x22 # y"
  then have "unquoteChar (quoteChar c @ x) = unquoteChar (CHR 0x22 # y)"
    by (simp only:)
  then have "c = CHR 0x22"
    by (simp add: unquoteChar_quoteChar)
  then have "quoteChar c = [CHR 0x5C, CHR 0x22]"
    by (simp add: quoteChar_def)
  then show False
    using \<open>quoteChar c @ x = CHR 0x22 # y\<close> by simp
qed

lemma quoted_body_inj:
  "concat (map quoteChar s) @ CHR 0x22 # r = concat (map quoteChar s') @ CHR 0x22 # r' \<Longrightarrow>
   s = s' \<and> r = r'"
proof (induction s arbitrary: s')
  case Nil
  show ?case
  proof (cases s')
    case Nil
    then show ?thesis
      using Nil.prems by simp
  next
    case (Cons c' cs')
    then have "quoteChar c' @ (concat (map quoteChar cs') @ CHR 0x22 # r') = CHR 0x22 # r"
      using Nil.prems by simp
    then show ?thesis
      using quoteChar_not_quote by blast
  qed
next
  case (Cons c cs)
  show ?case
  proof (cases s')
    case Nil
    then have "quoteChar c @ (concat (map quoteChar cs) @ CHR 0x22 # r) = CHR 0x22 # r'"
      using Cons.prems by simp
    then show ?thesis
      using quoteChar_not_quote by blast
  next
    case (Cons c' cs')
    then have "quoteChar c @ (concat (map quoteChar cs) @ CHR 0x22 # r) =
               quoteChar c' @ (concat (map quoteChar cs') @ CHR 0x22 # r')"
      using Cons.prems by simp
    from quoteChar_prefix_free [OF this] Cons.IH [of cs'] Cons show ?thesis
      by simp
  qed
qed

lemma QuoteJSONString_inj_rest:
  "QuoteJSONString s @ r = QuoteJSONString s' @ r' \<Longrightarrow> s = s' \<and> r = r'"
  using quoted_body_inj [of s r s' r'] by (simp add: QuoteJSONString_def)

subsection \<open>Values in a dump\<close>

lemma headClass_digit: "isDigit c \<Longrightarrow> headClass c = 2"
  by (auto simp: headClass_def isDigit_def)

lemma hd_numberToString: "numberToString i \<noteq> [] \<and> headClass (hd (numberToString i)) = 2"
  using hd_digits [of "nat i"] digits_not_Nil [of "nat i"]
  by (simp add: numberToString_def headClass_digit) (simp add: headClass_def)

lemma hd_Serialize:
  "SerializeJSONProperty ind v \<noteq> [] \<and> headClass (hd (SerializeJSONProperty ind v)) = valueClass v"
proof (cases v)
  case (JNumber i)
  then show ?thesis
    using hd_numberToString [of i] by simp
qed (simp_all add: headClass_def isDigit_def QuoteJSONString_def Let_def)

lemma same_class:
  assumes "SerializeJSONProperty ind v @ r = SerializeJSONProperty ind' v' @ r'"
  shows "valueClass v = valueClass v'"
proof -
  have "hd (SerializeJSONProperty ind v @ r) = hd (SerializeJSONProperty ind' v' @ r')"
    by (simp only: assms)
  then have "hd (SerializeJSONProperty ind v) = hd (SerializeJSONProperty ind' v')"
    using hd_Serialize [of ind v] hd_Serialize [of ind' v'] by simp
  then show ?thesis
    using hd_Serialize [of ind v] hd_Serialize [of ind' v'] by metis
qed

lemma delimited_simps [simp]:
  "delimited []" "delimited (CHR '','' # s)" "delimited (CHR 0x0A # s)"
  by (simp_all add: delimited_def)

lemma join_inj:
  assumes elems: "\<And>x y R R'. x \<in> set xs \<Longrightarrow> f x @ R = f y @ R' \<Longrightarrow> delimited R \<Longrightarrow>
             delimited R' \<Longrightarrow> x = y \<and> R = R'"
    and "xs \<noteq> []" "ys \<noteq> []"
    and "join (CHR '','' # CHR 0x0A # ind) (map f xs) @ CHR 0x0A # t =
         join (CHR '','' # CHR 0x0A # ind) (map f ys) @ CHR 0x0A # t'"
  shows "xs = ys \<and> t = t'"
  using assms
proof (induction xs arbitrary: ys)
  case Nil
  then show ?case by simp
next
  case (Cons x xs)
  let ?sep = "CHR '','' # CHR 0x0A # ind"
  obtain y ys' where ys: "ys = y # ys'"
    using Cons.prems(3) by (cases ys) auto
  have elem: "f x @ R = f y @ R' \<Longrightarrow> delimited R \<Longrightarrow> delimited R' \<Longrightarrow> x = y \<and> R = R'" for R R'
    using Cons.prems(1) [of x R y R'] by simp
  note eq = Cons.prems(4) [unfolded ys]
  show ?case
  proof (cases xs)
    case Nil
    note xs = Nil
    show ?thesis
    proof (cases ys')
      case Nil
      have "f x @ (CHR 0x0A # t) = f y @ (CHR 0x0A # t')"
        using eq xs Nil by simp
      from elem [OF this] show ?thesis
        using xs Nil ys by simp
    next
      case (Cons y2 ys2)
      have "f x @ (CHR 0x0A # t) = f y @ (?sep @ join ?sep (map f (y2 # ys2)) @ CHR 0x0A # t')"
        using eq xs Cons by simp
      from elem [OF this] show ?thesis
        by simp
    qed
  next
    case (Cons x2 xs2)
    note xs = Cons
    show ?thesis
    proof (cases ys')
      case Nil
      have "f x @ (?sep @ join ?sep (map f (x2 # xs2)) @ CHR 0x0A # t) = f y @ (CHR 0x0A # t')"
        using eq xs Nil by simp
      from elem [OF this] show ?thesis
        by simp
    next
      case (Cons y2 ys2)
      have "f x @ (?sep @ join ?sep (map f xs) @ CHR 0x0A # t) =
            f y @ (?sep @ join ?sep (map f ys') @ CHR 0x0A # t')"
        using eq xs Cons by simp
      from elem [OF this] have xy: "x = y"
        and rest: "join ?sep (map f xs) @ CHR 0x0A # t = join ?sep (map f ys') @ CHR 0x0A # t'"
        by simp_all
      have "xs = ys' \<and> t = t'"
      proof (rule Cons.IH [OF _ _ _ rest])
        show "xs \<noteq> []" using xs by simp
        show "ys' \<noteq> []" using Cons by simp
        show "x \<in> set xs \<Longrightarrow> f x @ R = f y @ R' \<Longrightarrow> delimited R \<Longrightarrow> delimited R' \<Longrightarrow>
              x = y \<and> R = R'" for x y R R'
          using Cons.prems(1) [of x R y R'] by simp
      qed
      then show ?thesis
        using xy ys by simp
    qed
  qed
qed

lemma Serialize_Array:
  "xs \<noteq> [] \<Longrightarrow> SerializeJSONProperty ind (JArray xs) =
     CHR ''['' # CHR 0x0A # (ind @ gap) @
     join (CHR '','' # CHR 0x0A # (ind @ gap)) (map (SerializeJSONProperty (ind @ gap)) xs) @
     CHR 0x0A # ind @ '']''"
  by (simp add: Let_def lineFeed_def)

lemma Serialize_Object:
  "ps \<noteq> [] \<Longrightarrow> SerializeJSONProperty ind (JObject ps) =
     CHR ''{'' # CHR 0x0A # (ind @ gap) @
     join (CHR '','' # CHR 0x0A # (ind @ gap))
       (map (\<lambda>p. QuoteJSONString (fst p) @ '': '' @ SerializeJSONProperty (ind @ gap) (snd p)) ps) @
     CHR 0x0A # ind @ ''}''"
  by (simp add: Let_def lineFeed_def)

lemma Serialize_empty:
  "SerializeJSONProperty ind (JArray []) = ''[]''" "SerializeJSONProperty ind (JObject []) = ''{}''"
  by simp_all

lemmas Serialize_nested = SerializeJSONProperty.simps(5,6)

lemma Serialize_inj_rest:
  "SerializeJSONProperty ind v @ r = SerializeJSONProperty ind v' @ r' \<Longrightarrow>
   delimited r \<Longrightarrow> delimited r' \<Longrightarrow> v = v' \<and> r = r'"
proof (induction v arbitrary: ind v' r r')
  case JNull
  from same_class [OF JNull(1)] obtain "v' = JNull"
    by (cases v') simp_all
  then show ?case
    using JNull(1) by simp
next
  case (JBool b)
  from same_class [OF JBool(1)] obtain b' where "v' = JBool b'"
    by (cases v') simp_all
  then show ?case
    using JBool(1) by (cases b; cases b'; simp)
next
  case (JNumber i)
  from same_class [OF JNumber(1)] obtain j where v': "v' = JNumber j"
    by (cases v') simp_all
  have "numberToString i @ r = numberToString j @ r'"
    using JNumber(1) v' by simp
  from numberToString_inj_rest [OF this JNumber(2,3)] show ?case
    using v' by simp
next
  case (JString s)
  from same_class [OF JString(1)] obtain s' where v': "v' = JString s'"
    by (cases v') simp_all
  have "QuoteJSONString s @ r = QuoteJSONString s' @ r'"
    using JString(1) v' by simp
  from QuoteJSONString_inj_rest [OF this] show ?case
    using v' by simp
next
  case (JArray xs)
  from same_class [OF JArray(2)] obtain ys where v': "v' = JArray ys"
    by (cases v') simp_all
  note eq = JArray(2) [unfolded v']
  show ?case
  proof (cases "xs = []"; cases "ys = []")
    assume "xs = []" "ys = []"
    then show ?thesis
      using eq v' by simp
  next
    assume "xs = []" "ys \<noteq> []"
    then show ?thesis
      using eq by (simp add: Serialize_Array Serialize_empty del: Serialize_nested)
  next
    assume "xs \<noteq> []" "ys = []"
    then show ?thesis
      using eq by (simp add: Serialize_Array Serialize_empty del: Serialize_nested)
  next
    assume ne: "xs \<noteq> []" "ys \<noteq> []"
    let ?sep = "CHR '','' # CHR 0x0A # (ind @ gap)"
    let ?f = "SerializeJSONProperty (ind @ gap)"
    have "join ?sep (map ?f xs) @ CHR 0x0A # (ind @ '']'' @ r) =
          join ?sep (map ?f ys) @ CHR 0x0A # (ind @ '']'' @ r')"
      using eq ne by (simp add: Serialize_Array Serialize_empty del: Serialize_nested)
    from join_inj [where f = ?f, OF _ ne this] JArray.IH
    have "xs = ys \<and> ind @ '']'' @ r = ind @ '']'' @ r'"
      by blast
    then show ?thesis
      using v' by simp
  qed
next
  case (JObject ps)
  from same_class [OF JObject(2)] obtain qs where v': "v' = JObject qs"
    by (cases v') simp_all
  note eq = JObject(2) [unfolded v']
  show ?case
  proof (cases "ps = []"; cases "qs = []")
    assume "ps = []" "qs = []"
    then show ?thesis
      using eq v' by simp
  next
    assume "ps = []" "qs \<noteq> []"
    then show ?thesis
      using eq by (simp add: Serialize_Object Serialize_empty del: Serialize_nested)
  next
    assume "ps \<noteq> []" "qs = []"
    then show ?thesis
      using eq by (simp add: Serialize_Object Serialize_empty del: Serialize_nested)
  next
    assume ne: "ps \<noteq> []" "qs \<noteq> []"
    let ?sep = "CHR '','' # CHR 0x0A # (ind @ gap)"
    let ?f = "\<lambda>p. QuoteJSONString (fst p) @ '': '' @ SerializeJSONProperty (ind @ gap) (snd p)"
    have member: "p = q \<and> R = R'"
      if "p \<in> set ps" "?f p @ R = ?f q @ R'" "delimited R" "delimited R'" for p q R R'
    proof -
      have "QuoteJSONString (fst p) @ ('': '' @ SerializeJSONProperty (ind @ gap) (snd p) @ R) =
            QuoteJSONString (fst q) @ ('': '' @ SerializeJSONProperty (ind @ gap) (snd q) @ R')"
        using that(2) by simp
      from QuoteJSONString_inj_rest [OF this]
      have key: "fst p = fst q"
        and val: "SerializeJSONProperty (ind @ gap) (snd p) @ R =
                  SerializeJSONProperty (ind @ gap) (snd q) @ R'"
        by simp_all
      have "snd p \<in> Basic_BNFs.snds p"
        by (cases p) simp
      from JObject.IH [OF that(1) this val that(3,4)] key show ?thesis
        by (simp add: prod_eq_iff)
    qed
    have "join ?sep (map ?f ps) @ CHR 0x0A # (ind @ ''}'' @ r) =
          join ?sep (map ?f qs) @ CHR 0x0A # (ind @ ''}'' @ r')"
      using eq ne by (simp add: Serialize_Object Serialize_empty del: Serialize_nested)
    from join_inj [where f = ?f, OF member ne this]
    have "ps = qs \<and> ind @ ''}'' @ r = ind @ ''}'' @ r'"
      by blast
    then show ?thesis
      using v' by simp
  qed
qed

lemma JSON_stringify_inj: "JSON_stringify v = JSON_stringify v' \<Longrightarrow> v = v'"
  using Serialize_inj_rest [of "[]" v "[]" v' "[]"] by (simp add: JSON_stringify_def)

subsection \<open>Records and their properties\<close>

lemma first_occurrence:
  "x \<notin> set xs \<Longrightarrow> x \<notin> set xs' \<Longrightarrow> xs @ x # ys = xs' @ x # ys' \<Longrightarrow> xs = xs'"
proof (induction xs arbitrary: xs')
  case Nil
  then show ?case
    by (cases xs') auto
next
  case (Cons a xs)
  then show ?case
    by (cases xs') auto
qed

lemma properties_inj:
  assumes "properties d = properties d'" "distinctKeys d" "distinctKeys d'"
  shows "d = d'"
proof -
  let ?k = "''name''"
  have keys: "map fst (propsBefore d) @ ?k # map fst (propsAfter d) =
              map fst (propsBefore d') @ ?k # map fst (propsAfter d')"
    using arg_cong [OF assms(1), of "map fst"] by (simp add: properties_def)
  have before: "?k \<notin> set (map fst (propsBefore d))" "?k \<notin> set (map fst (propsBefore d'))"
    using assms(2,3) by (auto simp: distinctKeys_def properties_def)
  have "map fst (propsBefore d) = map fst (propsBefore d')"
    using before keys by (rule first_occurrence)
  then have "length (propsBefore d) = length (propsBefore d')"
    by (rule map_eq_imp_length_eq)
  moreover have "propsBefore d @ (?k, JString (name d)) # propsAfter d =
                 propsBefore d' @ (?k, JString (name d')) # propsAfter d'"
    using assms(1) by (simp add: properties_def)
  ultimately have "propsBefore d = propsBefore d' \<and> name d = name d' \<and> propsAfter d = propsAfter d'"
    by simp
  then show ?thesis
    by (intro DocNodeImport.equality) simp_all
qed

subsection \<open>Lower-casing on a host\<close>










section \<open>The claims\<close>

text \<open>
  C1. For every import record and every reference context, iterating \<open>getPages\<close> gives
  one page; its title is the record's name and its url is the root, a slash, the
  lower-cased package name, a slash, the lower-cased name and \<^verbatim>\<open>.import\<close>. For a record
  named \<^verbatim>\<open>Foo\<close> (whatever its other properties) and a context with root \<^verbatim>\<open>/ref\<close> and
  package \<^verbatim>\<open>mypkg\<close>, the page has the title \<^verbatim>\<open>Foo\<close> and the url \<^verbatim>\<open>/ref/mypkg/foo.import\<close>.
\<close>

theorem getPages_title_url:
  "(\<exists>page. fst (iterate (getPages item context)) = [page] \<and>
           title page = name item \<and>
           url page = root context @ ''/'' @ toLocaleLowerCase (packageName context) @ ''/'' @
                      toLocaleLowerCase (name item) @ ''.import'') \<and>
   map (\<lambda>page. (title page, url page))
     (fst (iterate (getPages \<lparr>propsBefore = before, name = ''Foo'', propsAfter = after\<rparr>
                             \<lparr>root = ''/ref'', packageName = ''mypkg'', \<dots> = more\<rparr>))) =
     [(''Foo'', ''/ref/mypkg/foo.import'')]"
  by (simp add: iterate_getPages getPages_yield_def lower_eval)




text \<open>
  C3. The \<open>Import\<close> component returns the layout element with a navigation whose
  \<open>currentItemName\<close> is the record's name and whose \<open>category\<close> is the context's package
  name; and the content of the page that \<open>getPages\<close> emits renders to that element, for
  the same record and context.
\<close>

theorem Import_navigation:
  "(\<exists>nav children.
      Import data context = ReferencePageElement context nav children \<and>
      currentItemName nav = name data \<and> category nav = packageName context) \<and>
   map (\<lambda>page. renderComponent (content page)) (fst (iterate (getPages data context))) =
     [Import data context]"
  by (simp add: Import_def iterate_getPages getPages_yield_def)

text \<open>
  C4. The last child of the layout element that \<open>Import\<close> returns is a \<^verbatim>\<open><pre>\<close> element
  whose only child is the text \<^verbatim>\<open>JSON.stringify(data, null, 2)\<close>, taken of the whole
  record: all its properties, in order; the content of the page that \<open>getPages\<close> emits
  renders to that element. The dump is lossless: two structured values
  with the same dump are equal, so two records with the same dump have the same
  properties, and are the same record when each has every property key once.
\<close>

theorem Import_dump_lossless:
  "(\<exists>nav intro.
      Import data context =
        ReferencePageElement context nav
          (intro @ [IntrinsicElement ''pre'' [TextNode (JSON_stringify (JObject (properties data)))]])) \<and>
   map (\<lambda>page. renderComponent (content page)) (fst (iterate (getPages data context))) =
     [Import data context] \<and>
   (JSON_stringify v = JSON_stringify v' \<longrightarrow> v = v') \<and>
   (JSON_stringify (JObject (properties data)) = JSON_stringify (JObject (properties data')) \<longrightarrow>
      properties data = properties data') \<and>
   (JSON_stringify (JObject (properties data)) = JSON_stringify (JObject (properties data')) \<and>
    distinctKeys data \<and> distinctKeys data' \<longrightarrow> data = data')"
proof -
  have shown: "\<exists>nav intro.
      Import data context =
        ReferencePageElement context nav
          (intro @ [IntrinsicElement ''pre'' [TextNode (JSON_stringify (JObject (properties data)))]])"
  proof (intro exI)
    show "Import data context =
        ReferencePageElement context
          \<lparr>category = packageName context, currentItemName = name data\<rparr>
          ([TextNode ''I am a Import, my name is '', TextNode (name data)] @
           [IntrinsicElement ''pre'' [TextNode (JSON_stringify (JObject (properties data)))]])"
      by (simp add: Import_def)
  qed
  have props: "properties data = properties data'"
    if "JSON_stringify (JObject (properties data)) = JSON_stringify (JObject (properties data'))"
    using JSON_stringify_inj [OF that] by simp
  have rendered: "map (\<lambda>page. renderComponent (content page))
      (fst (iterate (getPages data context))) = [Import data context]"
    by (simp add: iterate_getPages getPages_yield_def)
  show ?thesis
    using shown rendered props JSON_stringify_inj [of v v'] properties_inj [of data data'] by blast
qed

theorem Import_dump_lossless_witness:
  "distinctKeys \<lparr>propsBefore = [(''kind'', JString ''import'')], name = ''Foo'',
                 propsAfter = [(''importDef'', JObject [(''src'', JString ''./foo.ts'')]),
                               (''location'', JObject [(''line'', JNumber 12), (''tags'', JArray [])])]\<rparr> \<and>
   JSON_stringify (JObject (properties
     \<lparr>propsBefore = [(''kind'', JString ''import'')], name = ''Foo'',
      propsAfter = [(''importDef'', JObject [(''src'', JString ''./foo.ts'')]),
                    (''location'', JObject [(''line'', JNumber 12), (''tags'', JArray [])])]\<rparr>)) =
     ''{'' @ [CHR 0x0A] @
     ''  '' @ [CHR 0x22] @ ''kind'' @ [CHR 0x22] @ '': '' @ [CHR 0x22] @ ''import'' @ [CHR 0x22] @ '','' @ [CHR 0x0A] @
     ''  '' @ [CHR 0x22] @ ''name'' @ [CHR 0x22] @ '': '' @ [CHR 0x22] @ ''Foo'' @ [CHR 0x22] @ '','' @ [CHR 0x0A] @
     ''  '' @ [CHR 0x22] @ ''importDef'' @ [CHR 0x22] @ '': {'' @ [CHR 0x0A] @
     ''    '' @ [CHR 0x22] @ ''src'' @ [CHR 0x22] @ '': '' @ [CHR 0x22] @ ''./foo.ts'' @ [CHR 0x22] @ [CHR 0x0A] @
     ''  },'' @ [CHR 0x0A] @
     ''  '' @ [CHR 0x22] @ ''location'' @ [CHR 0x22] @ '': {'' @ [CHR 0x0A] @
     ''    '' @ [CHR 0x22] @ ''line'' @ [CHR 0x22] @ '': 12,'' @ [CHR 0x0A] @
     ''    '' @ [CHR 0x22] @ ''tags'' @ [CHR 0x22] @ '': []'' @ [CHR 0x0A] @
     ''  }'' @ [CHR 0x0A] @
     ''}'' \<and>
   JSON_stringify (JObject (properties
     \<lparr>propsBefore = [(''kind'', JString ''import'')], name = ''Foo'',
      propsAfter = [(''importDef'', JObject [(''src'', JString ''./foo.ts'')]),
                    (''location'', JObject [(''line'', JNumber 12), (''tags'', JArray [])])]\<rparr>)) \<noteq>
   JSON_stringify (JObject (properties
     \<lparr>propsBefore = [(''kind'', JString ''import'')], name = ''Foo'',
      propsAfter = [(''importDef'', JObject [(''src'', JString ''./bar.ts'')]),
                    (''location'', JObject [(''line'', JNumber 12), (''tags'', JArray [])])]\<rparr>))"
proof -
  let ?foo = "\<lparr>propsBefore = [(''kind'', JString ''import'')], name = ''Foo'',
      propsAfter = [(''importDef'', JObject [(''src'', JString ''./foo.ts'')]),
                    (''location'', JObject [(''line'', JNumber 12), (''tags'', JArray [])])]\<rparr>"
  let ?bar = "\<lparr>propsBefore = [(''kind'', JString ''import'')], name = ''Foo'',
      propsAfter = [(''importDef'', JObject [(''src'', JString ''./bar.ts'')]),
                    (''location'', JObject [(''line'', JNumber 12), (''tags'', JArray [])])]\<rparr>"
  have keys: "distinctKeys ?foo" "distinctKeys ?bar"
    by (simp_all add: distinctKeys_def properties_def)
  have dump: "JSON_stringify (JObject (properties ?foo)) =
     ''{'' @ [CHR 0x0A] @
     ''  '' @ [CHR 0x22] @ ''kind'' @ [CHR 0x22] @ '': '' @ [CHR 0x22] @ ''import'' @ [CHR 0x22] @ '','' @ [CHR 0x0A] @
     ''  '' @ [CHR 0x22] @ ''name'' @ [CHR 0x22] @ '': '' @ [CHR 0x22] @ ''Foo'' @ [CHR 0x22] @ '','' @ [CHR 0x0A] @
     ''  '' @ [CHR 0x22] @ ''importDef'' @ [CHR 0x22] @ '': {'' @ [CHR 0x0A] @
     ''    '' @ [CHR 0x22] @ ''src'' @ [CHR 0x22] @ '': '' @ [CHR 0x22] @ ''./foo.ts'' @ [CHR 0x22] @ [CHR 0x0A] @
     ''  },'' @ [CHR 0x0A] @
     ''  '' @ [CHR 0x22] @ ''location'' @ [CHR 0x22] @ '': {'' @ [CHR 0x0A] @
     ''    '' @ [CHR 0x22] @ ''line'' @ [CHR 0x22] @ '': 12,'' @ [CHR 0x0A] @
     ''    '' @ [CHR 0x22] @ ''tags'' @ [CHR 0x22] @ '': []'' @ [CHR 0x0A] @
     ''  }'' @ [CHR 0x0A] @
     ''}''"
    by (simp add: JSON_stringify_def properties_def Let_def gap_def lineFeed_def
        QuoteJSONString_def quoteChar_def numberToString_def digits.simps char_of_eq_iff)
  have "?foo \<noteq> ?bar"
    by simp
  then have differ: "JSON_stringify (JObject (properties ?foo)) \<noteq> JSON_stringify (JObject (properties ?bar))"
    using Import_dump_lossless [of ?foo "\<lparr>root = ''/ref'', packageName = ''mypkg''\<rparr>" JNull JNull ?bar] keys
    by blast
  show ?thesis
    using keys(1) dump differ by blast
qed

text \<open>
  C5, as the claim states it, fails: the root is copied into the url as it is and
  nothing is escaped, so a capital letter of the root and a space of the name are in the url.
\<close>

theorem url_wellformed_counterexample:
  "map url (fst (iterate (getPages
      \<lparr>propsBefore = [], name = ''My Item'', propsAfter = []\<rparr>
      \<lparr>root = ''/Ref'', packageName = ''mypkg''\<rparr>))) = [''/Ref/mypkg/my item.import''] \<and>
   \<not> isLowerCase ''/Ref/mypkg/my item.import'' \<and>
   list_ex isWhiteSpace ''/Ref/mypkg/my item.import''"
  by (simp add: iterate_getPages getPages_yield_def isLowerCase_def isWhiteSpace_def lower_eval)

text \<open>
  C5, amended. The url begins with the context's root, and what follows the root is
  lower-case, so the url is lower-case exactly when the root is. Lower-casing neither adds
  nor removes white space and nothing is escaped, so the url holds white space exactly
  when the root, the package name or the name does.
\<close>

theorem url_wellformed_amended:
  "\<exists>page. fst (iterate (getPages item context)) = [page] \<and>
      prefix (root context) (url page) \<and>
      isLowerCase (drop (length (root context)) (url page)) \<and>
      isLowerCase (url page) = isLowerCase (root context) \<and>
      list_ex isWhiteSpace (url page) =
        (list_ex isWhiteSpace (root context) \<or> list_ex isWhiteSpace (packageName context) \<or>
         list_ex isWhiteSpace (name item))"
proof -
  have slash: "\<not> isUpperCaseChar CHR ''/''" and suffix: "isLowerCase ''.import''"
    by (simp_all add: isLowerCase_def lower_eval)
  have blank: "\<not> isWhiteSpace CHR ''/''" "\<not> list_ex isWhiteSpace ''.import''"
    by (simp_all add: isWhiteSpace_def)
  have rest: "isLowerCase (''/'' @ toLocaleLowerCase (packageName context) @ ''/'' @
                toLocaleLowerCase (name item) @ ''.import'')"
    using slash suffix
    by (simp add: isLowerCase_append isLowerCase_Cons isLowerCase_toLocaleLowerCase)
  have space: "list_ex isWhiteSpace (root context @ ''/'' @ toLocaleLowerCase (packageName context) @
                 ''/'' @ toLocaleLowerCase (name item) @ ''.import'') =
        (list_ex isWhiteSpace (root context) \<or> list_ex isWhiteSpace (packageName context) \<or>
         list_ex isWhiteSpace (name item))"
    using blank by (simp add: list_ex_isWhiteSpace_toLocaleLowerCase)
  have lower: "isLowerCase (root context @ ''/'' @ toLocaleLowerCase (packageName context) @
                 ''/'' @ toLocaleLowerCase (name item) @ ''.import'') = isLowerCase (root context)"
    using rest isLowerCase_append [of "root context"] by blast
  let ?page = "getPages_yield item context"
  have u: "url ?page =
      root context @ ''/'' @ toLocaleLowerCase (packageName context) @
                 ''/'' @ toLocaleLowerCase (name item) @ ''.import''"
    by (simp add: getPages_yield_def)
  have 1: "fst (iterate (getPages item context)) = [?page]"
    by (simp add: iterate_getPages)
  have 2: "prefix (root context) (url ?page)"
    unfolding u by simp
  have 3: "isLowerCase (drop (length (root context)) (url ?page))"
    unfolding u using rest by simp
  have 4: "isLowerCase (url ?page) = isLowerCase (root context)"
    unfolding u by (rule lower)
  have 5: "list_ex isWhiteSpace (url ?page) =
        (list_ex isWhiteSpace (root context) \<or> list_ex isWhiteSpace (packageName context) \<or>
         list_ex isWhiteSpace (name item))"
    unfolding u by (rule space)
  show ?thesis
    using 1 2 3 4 5 by blast
qed

text \<open>
  C6. Two symbols of different kinds with the same root, package name and name get
  different urls; the url of the import renderer is the derived url of the kind import,
  with the suffix \<^verbatim>\<open>.import\<close>, and differs from the derived url of a symbol of any other
  kind with the same name in the same package.
\<close>

theorem kind_disambiguation:
  "(k \<noteq> k' \<longrightarrow> deriveUrl r p n k \<noteq> deriveUrl r p n k') \<and>
   map url (fst (iterate (getPages item context))) =
     [deriveUrl (root context) (packageName context) (name item) KindImport] \<and>
   (k \<noteq> KindImport \<longrightarrow>
      map url (fst (iterate (getPages item context))) \<noteq>
        [deriveUrl (root context) (packageName context) (name item) k])"
  using kindTag_inj [of k k'] kindTag_inj [of KindImport k]
  by (auto simp: deriveUrl_def iterate_getPages getPages_yield_def)

theorem kind_disambiguation_witness:
  "deriveUrl ''/ref'' ''mypkg'' ''Bar'' KindFunction \<noteq> deriveUrl ''/ref'' ''mypkg'' ''Bar'' KindClass \<and>
   map url (fst (iterate (getPages \<lparr>propsBefore = [], name = ''Bar'', propsAfter = []\<rparr>
                                   \<lparr>root = ''/ref'', packageName = ''mypkg''\<rparr>))) =
     [''/ref/mypkg/bar.import''] \<and>
   map url (fst (iterate (getPages \<lparr>propsBefore = [], name = ''Bar'', propsAfter = []\<rparr>
                                   \<lparr>root = ''/ref'', packageName = ''mypkg''\<rparr>))) \<noteq>
     [deriveUrl ''/ref'' ''mypkg'' ''Bar'' KindFunction]"
  using kind_disambiguation
    [of KindFunction KindClass "''/ref''" "''mypkg''" "''Bar''"
        "\<lparr>propsBefore = [], name = ''Bar'', propsAfter = []\<rparr>"
        "\<lparr>root = ''/ref'', packageName = ''mypkg''\<rparr>"]
  by (simp add: deriveUrl_def lower_eval)

text \<open>
  C7, as the claim states it, fails: after one iteration over the generator that
  \<open>getPages\<close> returned, a second iteration over the same generator gives no page.
\<close>

theorem getPages_restartable_counterexample:
  "fst (iterate (snd (iterate (getPages
      \<lparr>propsBefore = [], name = ''Foo'', propsAfter = []\<rparr>
      \<lparr>root = ''/ref'', packageName = ''mypkg''\<rparr>)))) \<noteq>
   fst (iterate (getPages
      \<lparr>propsBefore = [], name = ''Foo'', propsAfter = []\<rparr>
      \<lparr>root = ''/ref'', packageName = ''mypkg''\<rparr>))"
  by (simp add: iterate_getPages iterate_Completed)

text \<open>
  C7, amended. Iterating the generator that \<open>getPages\<close> returns ends and gives exactly one
  page. The generator is single-pass: once iterated it is completed, its next step
  reports the end, and a second iteration over it gives no page. The page is had
  again from a new call of \<open>getPages\<close> on the same arguments.
\<close>

theorem getPages_single_pass:
  "length (fst (iterate (getPages item context))) = 1 \<and>
   fst (iterate (getPages item context)) = [getPages_yield item context] \<and>
   genState (snd (iterate (getPages item context))) = Completed \<and>
   fst (generatorNext (snd (iterate (getPages item context)))) = Finished \<and>
   fst (iterate (snd (iterate (getPages item context)))) = []"
  by (simp add: iterate_getPages iterate_Completed generatorNext_def)

text \<open>
  C8. The context is not changed: the generator returned by \<open>getPages\<close> holds the context
  it was given, no step of the generator and no iteration over it changes the context
  (or the record) it holds, and the context handed to the \<open>Import\<close> element and on to the
  layout element is the one \<open>getPages\<close> received, extension part included.
\<close>

theorem context_unchanged:
  "genContext (getPages item context) = context \<and>
   genContext (snd (generatorNext g)) = genContext g \<and>
   genItem (snd (generatorNext g)) = genItem g \<and>
   genContext (snd (iterate g)) = genContext g \<and>
   genItem (snd (iterate g)) = genItem g \<and>
   genContext (snd (iterate (snd (iterate (getPages item context))))) = context \<and>
   map content (fst (iterate (getPages item context))) = [ImportElement item context] \<and>
   (\<exists>nav children. Import item context = ReferencePageElement context nav children)"
proof -
  have held: "genContext (getPages item context) = context"
    by (simp add: getPages_def)
  have again: "genContext (snd (iterate (snd (iterate (getPages item context))))) = context"
    by (simp add: genContext_iterate held)
  have passed: "map content (fst (iterate (getPages item context))) = [ImportElement item context]"
    by (simp add: iterate_getPages getPages_yield_def)
  have layout: "\<exists>nav children. Import item context = ReferencePageElement context nav children"
    by (simp add: Import_def)
  show ?thesis
    using held again passed layout
    by (simp add: genContext_generatorNext genItem_generatorNext genContext_iterate
        genItem_iterate)
qed

text \<open>
  C9. The title of the emitted page is the record's name with its casing kept: it equals
  the lower-cased name only when the name has no capital letter. A record named \<^verbatim>\<open>Foo\<close>
  gives the title \<^verbatim>\<open>Foo\<close>, which is not its lower-casing, next to a url that ends in
  \<^verbatim>\<open>/foo.import\<close>.
\<close>

theorem title_keeps_casing:
  "map title (fst (iterate (getPages item context))) = [name item] \<and>
   (map title (fst (iterate (getPages item context))) = [toLocaleLowerCase (name item)]) =
     (\<not> list_ex isUpperCaseChar (name item)) \<and>
   map (\<lambda>page. (title page, title page = toLocaleLowerCase ''Foo'', url page))
     (fst (iterate (getPages \<lparr>propsBefore = before, name = ''Foo'', propsAfter = after\<rparr> context))) =
     [(''Foo'', False,
       root context @ ''/'' @ toLocaleLowerCase (packageName context) @ ''/foo.import'')]"
proof -
  have "(name item = toLocaleLowerCase (name item)) = (\<not> list_ex isUpperCaseChar (name item))"
    using toLocaleLowerCase_fixed_iff [of "name item"] by auto
  then show ?thesis
    by (simp add: iterate_getPages getPages_yield_def lower_eval)
qed

text \<open>
  C10. The url of an import page is a function of the context's root and package name
  and of the record's name: two records with the same name, whatever their other
  properties, under two contexts with the same root and package name, whatever else the
  contexts hold, get the same url. The name goes into the url lower-cased and otherwise
  as it is: the empty name gives a url that ends in \<^verbatim>\<open>/.import\<close>, and a character of the
  name that is not a capital letter (a slash, a space) stands in the url unchanged.
\<close>

theorem url_depends_on_root_package_name:
  "(name item = name item' \<and> root context = root context' \<and>
    packageName context = packageName context' \<longrightarrow>
      map url (fst (iterate (getPages item context))) =
      map url (fst (iterate (getPages item' context')))) \<and>
   (name item = [] \<longrightarrow>
      map url (fst (iterate (getPages item context))) =
        [root context @ ''/'' @ toLocaleLowerCase (packageName context) @ ''/.import'']) \<and>
   (name item = s @ [c] @ t \<and> \<not> isUpperCaseChar c \<longrightarrow>
      map url (fst (iterate (getPages item context))) =
        [root context @ ''/'' @ toLocaleLowerCase (packageName context) @ ''/'' @
         toLocaleLowerCase s @ [c] @ toLocaleLowerCase t @ ''.import''])"
  by (simp add: iterate_getPages getPages_yield_def toLocaleLowerCase_def toLowerChar_fixed_iff)

theorem url_depends_on_root_package_name_witness:
  "map url (fst (iterate (getPages
      \<lparr>propsBefore = [(''kind'', JString ''import'')], name = ''A/b C'', propsAfter = []\<rparr>
      \<lparr>root = ''/ref'', packageName = ''Pkg''\<rparr>))) =
   map url (fst (iterate (getPages
      \<lparr>propsBefore = [], name = ''A/b C'',
        propsAfter = [(''importDef'', JObject [(''src'', JString ''./x.ts'')])]\<rparr>
      \<lparr>root = ''/ref'', packageName = ''Pkg'', \<dots> = True\<rparr>))) \<and>
   map url (fst (iterate (getPages
      \<lparr>propsBefore = [], name = [], propsAfter = []\<rparr>
      \<lparr>root = ''/ref'', packageName = ''Pkg''\<rparr>))) = [''/ref/pkg/.import''] \<and>
   map url (fst (iterate (getPages
      \<lparr>propsBefore = [], name = ''A/b C'', propsAfter = []\<rparr>
      \<lparr>root = ''/ref'', packageName = ''Pkg''\<rparr>))) = [''/ref/pkg/a/b c.import'']"
proof -
  let ?i1 = "\<lparr>propsBefore = [(''kind'', JString ''import'')], name = ''A/b C'', propsAfter = []\<rparr>"
  let ?i2 = "\<lparr>propsBefore = [], name = ''A/b C'',
        propsAfter = [(''importDef'', JObject [(''src'', JString ''./x.ts'')])]\<rparr>"
  let ?i3 = "\<lparr>propsBefore = [], name = [], propsAfter = []\<rparr>"
  let ?i4 = "\<lparr>propsBefore = [], name = ''A/b C'', propsAfter = []\<rparr>"
  let ?c1 = "\<lparr>root = ''/ref'', packageName = ''Pkg''\<rparr>"
  let ?c2 = "\<lparr>root = ''/ref'', packageName = ''Pkg'', \<dots> = True\<rparr>"
  have same: "map url (fst (iterate (getPages ?i1 ?c1))) = map url (fst (iterate (getPages ?i2 ?c2)))"
    using url_depends_on_root_package_name [of ?i1 ?i2 ?c1 ?c2] by simp
  have empty: "map url (fst (iterate (getPages ?i3 ?c1))) = [''/ref/pkg/.import'']"
    using url_depends_on_root_package_name [of ?i3 ?i3 ?c1 ?c1] by (simp add: lower_eval)
  have slash: "map url (fst (iterate (getPages ?i4 ?c1))) = [''/ref/pkg/a/b c.import'']"
    using url_depends_on_root_package_name [of ?i4 ?i4 ?c1 ?c1 "''A/b''" "CHR '' ''" "''C''"]
    by (simp add: lower_eval)
  show ?thesis
    using same empty slash by blast
qed

end
